theory Spec2Isabelle
  imports Main "HOL-Library.Word"
begin

unbundle bit_operations_syntax

section \<open>Data model of firmware/DiVA-fw/main.c\<close>

type_synonym u8 = "8 word"
type_synonym u32 = "32 word"

text \<open>
  Every call that leaves \<^verbatim>\<open>main.c\<close> and acts on a peripheral or on the USB stack is
  recorded, in program order, with the arguments it was given. Pure queries
  (\<^verbatim>\<open>irq_pending\<close>, \<^verbatim>\<open>irq_getmask\<close>, \<^verbatim>\<open>tud_cdc_available\<close>, \<^verbatim>\<open>tud_cdc_connected\<close>,
  \<^verbatim>\<open>button_raw_read\<close>) are inputs of the functions that make them.
\<close>

datatype event =
    Irq_setmask u32
  | Irq_setie u32
  | Timer_init
  | Tusb_init
  | Tud_int_handler u8
  | Timer0_ev_pending_write u32
  | Tud_cdc_read nat
  | Tud_cdc_write "u8 list"
  | Tud_cdc_write_flush
  | Tud_cdc_write_str string
  | Leds_out_write u32
  | Reboot_ctrl_write u32

text \<open>
  The globals and function-local statics of the file: \<^verbatim>\<open>system_ticks\<close> (extern volatile
  uint32_t), \<^verbatim>\<open>blink_interval_ms\<close> (static uint32_t), and the statics \<^verbatim>\<open>start_ms\<close>,
  \<^verbatim>\<open>led_state\<close> and \<^verbatim>\<open>count\<close> of \<^verbatim>\<open>led_blinking_task\<close>. \<^verbatim>\<open>count\<close> is an implicit
  \<^verbatim>\<open>int\<close> printed with \<^verbatim>\<open>%u\<close>; it is kept as the 32-bit pattern that \<^verbatim>\<open>%u\<close> reads.
\<close>

record state =
  system_ticks :: u32
  blink_interval_ms :: u32
  start_ms :: u32
  led_state :: bool
  count :: u32
  trace :: "event list"

text \<open>
  Two macros come from generated or board headers that are not part of the sources:
  the interrupt number of timer 0 and the button mask. They are parameters.
\<close>

record board =
  TIMER0_INTERRUPT :: nat
  BUTTON_A_HOLD :: u32

definition USB_INTERRUPT :: nat where
  "USB_INTERRUPT = 4"

definition BLINK_NOT_MOUNTED :: u32 where
  "BLINK_NOT_MOUNTED = 250"

definition BLINK_MOUNTED :: u32 where
  "BLINK_MOUNTED = 1000"

definition BLINK_SUSPENDED :: u32 where
  "BLINK_SUSPENDED = 2500"

definition emit :: "event \<Rightarrow> state \<Rightarrow> state" where
  "emit e s = s\<lparr>trace := trace s @ [e]\<rparr>"

text \<open>The events a run from \<open>s\<close> to \<open>s'\<close> has added to the record.\<close>

definition emitted :: "state \<Rightarrow> state \<Rightarrow> event list" where
  "emitted s s' = drop (length (trace s)) (trace s')"

section \<open>Interrupt dispatcher\<close>

text \<open>
  \<^verbatim>\<open>isr\<close>: \<open>pending\<close> and \<open>imask\<close> are what \<^verbatim>\<open>irq_pending()\<close> and \<^verbatim>\<open>irq_getmask()\<close> return.
  \<^verbatim>\<open>irqs & (1 << N)\<close> is a test for a non-zero word. \<^verbatim>\<open>tud_int_handler\<close> is the USB stack's
  entry point: the call is recorded, and it is taken to write no variable of this file.
\<close>

definition irq_bit :: "nat \<Rightarrow> u32 \<Rightarrow> bool" where
  "irq_bit n irqs = (irqs AND push_bit n 1 \<noteq> 0)"

definition isr :: "board \<Rightarrow> u32 \<Rightarrow> u32 \<Rightarrow> state \<Rightarrow> state" where
  "isr cfg pending imask s =
     (let irqs = pending AND imask;
          s1 = (if irq_bit USB_INTERRUPT irqs then emit (Tud_int_handler 0) s else s);
          s2 = (if irq_bit (TIMER0_INTERRUPT cfg) irqs
                then emit (Timer0_ev_pending_write 1)
                       (s1\<lparr>system_ticks := system_ticks s1 + 1\<rparr>)
                else s1)
      in s2)"

section \<open>USB CDC echo\<close>

text \<open>
  Modelled from the spec: \<^verbatim>\<open>tud_cdc_read\<close> belongs to the USB stack, which is not part of
  the sources. The spec (section 6): "read up to N bytes (returns actual count read,
  \<open>\<le>\<close> N)". \<open>rx\<close> is what the stack holds for this read; the first \<open>bufsize\<close> bytes of
  it, at most, overwrite the front of the buffer, and their number is returned.
\<close>

definition tud_cdc_read :: "u8 list \<Rightarrow> u8 list \<Rightarrow> nat \<Rightarrow> u8 list \<times> u32" where
  "tud_cdc_read rx buf bufsize =
     (let n = min (length rx) bufsize
      in (take n rx @ drop n buf, of_nat n))"

text \<open>
  \<^verbatim>\<open>cdc_task\<close>: \<open>avail\<close> is what \<^verbatim>\<open>tud_cdc_available()\<close> returns, \<open>rx\<close> what the stack
  delivers to the read, and \<open>uninit\<close> the bytes that the uninitialised \<^verbatim>\<open>char buf[64]\<close>
  holds on entry. \<^verbatim>\<open>tud_cdc_write(buf, count)\<close> is handed the first \<open>count\<close> bytes of
  \<open>buf\<close>.
\<close>

definition cdc_task :: "u32 \<Rightarrow> u8 list \<Rightarrow> (nat \<Rightarrow> u8) \<Rightarrow> state \<Rightarrow> state" where
  "cdc_task avail rx uninit s =
     (if avail \<noteq> 0 then
        (let buf0 = map uninit [0..<64];
             (buf, count) = tud_cdc_read rx buf0 64;
             s1 = emit (Tud_cdc_read 64) s;
             s2 = emit (Tud_cdc_write (take (unat count) buf)) s1;
             s3 = emit Tud_cdc_write_flush s2
         in s3)
      else s)"

section \<open>Callbacks of the USB stack\<close>

definition tud_cdc_line_state_cb :: "u8 \<Rightarrow> bool \<Rightarrow> bool \<Rightarrow> state \<Rightarrow> state" where
  "tud_cdc_line_state_cb itf dtr rts s = (if dtr then s else s)"

definition tud_cdc_rx_cb :: "u8 \<Rightarrow> state \<Rightarrow> state" where
  "tud_cdc_rx_cb itf s = s"

definition tud_mount_cb :: "state \<Rightarrow> state" where
  "tud_mount_cb s = s\<lparr>blink_interval_ms := BLINK_MOUNTED\<rparr>"

definition tud_umount_cb :: "state \<Rightarrow> state" where
  "tud_umount_cb s = s\<lparr>blink_interval_ms := BLINK_NOT_MOUNTED\<rparr>"

definition tud_suspend_cb :: "bool \<Rightarrow> state \<Rightarrow> state" where
  "tud_suspend_cb remote_wakeup_en s = s\<lparr>blink_interval_ms := BLINK_SUSPENDED\<rparr>"

definition tud_resume_cb :: "state \<Rightarrow> state" where
  "tud_resume_cb s = s\<lparr>blink_interval_ms := BLINK_MOUNTED\<rparr>"

section \<open>Blinking task\<close>

text \<open>
  Modelled from the spec: \<^verbatim>\<open>board_millis\<close> is declared in a header outside the sources.
  The spec (sections 3 and 4.3) has the blink task measure elapsed time by reading
  the tick counter, which only the interrupt dispatcher writes.
\<close>

definition board_millis :: "state \<Rightarrow> u32" where
  "board_millis s = system_ticks s"

definition board_led_write :: "bool \<Rightarrow> state \<Rightarrow> state" where
  "board_led_write st s = emit (Leds_out_write (if st then 1 else 0)) s"

text \<open>What \<^verbatim>\<open>%u\<close> prints: the decimal digits of an unsigned number, no padding.\<close>

definition digit :: "nat \<Rightarrow> char" where
  "digit d = ''0123456789'' ! d"

fun fmt_u :: "nat \<Rightarrow> string" where
  "fmt_u n = (if n < 10 then [digit n] else fmt_u (n div 10) @ [digit (n mod 10)])"

declare fmt_u.simps [simp del]

text \<open>\<^verbatim>\<open>sprintf(str, "Hello! %u\r\n", c)\<close>; the longest result has 19 characters.\<close>

definition sprintf_hello :: "u32 \<Rightarrow> string" where
  "sprintf_hello c = ''Hello! '' @ fmt_u (unat c) @ [CHR 0x0D, CHR 0x0A]"

text \<open>
  \<^verbatim>\<open>led_blinking_task\<close>: \<open>connected\<close> is what \<^verbatim>\<open>tud_cdc_connected()\<close> returns. All
  arithmetic is on uint32_t and wraps. \<^verbatim>\<open>led_state = 1 - led_state\<close> on a bool is
  negation. The LED is written with the level held before the toggle.
\<close>

definition led_blinking_task :: "bool \<Rightarrow> state \<Rightarrow> state" where
  "led_blinking_task connected s =
     (if board_millis s - start_ms s < blink_interval_ms s then s
      else
        (let s1 = s\<lparr>start_ms := start_ms s + blink_interval_ms s\<rparr>;
             s2 = board_led_write (led_state s1) s1;
             s3 = (if connected then
                     (let str = sprintf_hello (count s2);
                          s2a = s2\<lparr>count := count s2 + 1\<rparr>;
                          s2b = emit (Tud_cdc_write_str str) s2a
                      in emit Tud_cdc_write_flush s2b)
                   else s2)
         in s3\<lparr>led_state := \<not> led_state s3\<rparr>))"

section \<open>Main loop\<close>

text \<open>
  The button watch at the end of the loop body: \<open>b_val\<close> is what \<^verbatim>\<open>button_raw_read()\<close>
  returns, held in an \<^verbatim>\<open>int\<close>; \<^verbatim>\<open>b_val & BUTTON_A_HOLD\<close> is a test for a non-zero value, and
  reads the same on the 32-bit pattern.
\<close>

definition button_watch :: "board \<Rightarrow> u32 \<Rightarrow> state \<Rightarrow> state" where
  "button_watch cfg b_val s =
     (if b_val AND BUTTON_A_HOLD cfg \<noteq> 0 then emit (Reboot_ctrl_write 0xac) s else s)"

text \<open>
  Modelled from the spec: \<^verbatim>\<open>tud_task\<close> is the USB stack's. From this file's point of
  view (spec, section 4.2) it does nothing but invoke the callbacks defined here, some
  number of them in some order.
\<close>

datatype callback =
    Mount
  | Umount
  | Suspend bool
  | Resume
  | Cdc_line_state u8 bool bool
  | Cdc_rx u8

fun invoke :: "callback \<Rightarrow> state \<Rightarrow> state" where
  "invoke Mount s = tud_mount_cb s"
| "invoke Umount s = tud_umount_cb s"
| "invoke (Suspend remote_wakeup_en) s = tud_suspend_cb remote_wakeup_en s"
| "invoke Resume s = tud_resume_cb s"
| "invoke (Cdc_line_state itf dtr rts) s = tud_cdc_line_state_cb itf dtr rts s"
| "invoke (Cdc_rx itf) s = tud_cdc_rx_cb itf s"

definition tud_task :: "callback list \<Rightarrow> state \<Rightarrow> state" where
  "tud_task cbs s = fold invoke cbs s"

text \<open>
  The state when \<^verbatim>\<open>main\<close> reaches its loop: the statics hold their initialisers, the
  four set-up calls have been made. \<open>t0\<close> is the tick counter at that moment (its
  definition is in another file).
\<close>

definition boot :: "u32 \<Rightarrow> state" where
  "boot t0 =
     \<lparr>system_ticks = t0, blink_interval_ms = BLINK_NOT_MOUNTED, start_ms = 0,
      led_state = False, count = 0,
      trace = [Irq_setmask 0, Irq_setie 1, Timer_init, Tusb_init]\<rparr>"

text \<open>
  One pass through the body of \<^verbatim>\<open>while(1)\<close>, with everything it reads from outside.
\<close>

record inputs =
  callbacks :: "callback list"
  cdc_available :: u32
  cdc_rx :: "u8 list"
  stack_bytes :: "nat \<Rightarrow> u8"
  cdc_connected :: bool
  button_raw :: u32

definition loop_body :: "board \<Rightarrow> inputs \<Rightarrow> state \<Rightarrow> state" where
  "loop_body cfg i s =
     (let s1 = tud_task (callbacks i) s;
          s2 = cdc_task (cdc_available i) (cdc_rx i) (stack_bytes i) s1;
          s3 = led_blinking_task (cdc_connected i) s2
      in button_watch cfg (button_raw i) s3)"

text \<open>
  \<^verbatim>\<open>while(1)\<close> never exits, so \<^verbatim>\<open>main\<close> does not return: \<open>main_loop\<close> gives the state after
  the passes whose inputs are listed, when no interrupt is taken.
\<close>

primrec main_loop :: "board \<Rightarrow> inputs list \<Rightarrow> state \<Rightarrow> state" where
  "main_loop cfg [] s = s"
| "main_loop cfg (i # is) s = main_loop cfg is (loop_body cfg i s)"

text \<open>
  The interrupt handler preempts the loop. An execution is a sequence of steps, each an
  interrupt or one of the four parts of the loop body; the loop itself produces the
  parts in its fixed order, with interrupts anywhere between them. An interrupt inside
  a part acts as one just before or just after it: the handler writes only the tick
  counter, and a part reads it at most once, on entry (\<^verbatim>\<open>board_millis\<close>).
\<close>

datatype step =
    Interrupt u32 u32
  | Usb_step "callback list"
  | Cdc_step u32 "u8 list" "nat \<Rightarrow> u8"
  | Led_step bool
  | Button_step u32

fun exec :: "board \<Rightarrow> step \<Rightarrow> state \<Rightarrow> state" where
  "exec cfg (Interrupt pending imask) s = isr cfg pending imask s"
| "exec cfg (Usb_step cbs) s = tud_task cbs s"
| "exec cfg (Cdc_step avail rx uninit) s = cdc_task avail rx uninit s"
| "exec cfg (Led_step connected) s = led_blinking_task connected s"
| "exec cfg (Button_step b_val) s = button_watch cfg b_val s"

fun run :: "board \<Rightarrow> step list \<Rightarrow> state \<Rightarrow> state" where
  "run cfg [] s = s"
| "run cfg (st # sts) s = run cfg sts (exec cfg st s)"

definition body_steps :: "inputs \<Rightarrow> step list" where
  "body_steps i =
     [Usb_step (callbacks i),
      Cdc_step (cdc_available i) (cdc_rx i) (stack_bytes i),
      Led_step (cdc_connected i),
      Button_step (button_raw i)]"

section \<open>Observations\<close>

text \<open>Timer interrupts among the steps: dispatcher entries that see the timer bit.\<close>

fun timer_irqs :: "board \<Rightarrow> step list \<Rightarrow> nat" where
  "timer_irqs cfg [] = 0"
| "timer_irqs cfg (Interrupt pending imask # sts) =
     (if irq_bit (TIMER0_INTERRUPT cfg) (pending AND imask) then 1 else 0) + timer_irqs cfg sts"
| "timer_irqs cfg (_ # sts) = timer_irqs cfg sts"

text \<open>Writes to the reset control register, to the LED register; greetings sent.\<close>

fun is_reset :: "event \<Rightarrow> bool" where
  "is_reset (Reboot_ctrl_write v) = True"
| "is_reset _ = False"

fun is_toggle :: "event \<Rightarrow> bool" where
  "is_toggle (Leds_out_write v) = True"
| "is_toggle _ = False"

definition toggles :: "event list \<Rightarrow> nat" where
  "toggles evs = length (filter is_toggle evs)"

fun greetings :: "event list \<Rightarrow> string list" where
  "greetings [] = []"
| "greetings (Tud_cdc_write_str str # evs) = str # greetings evs"
| "greetings (_ # evs) = greetings evs"

text \<open>Steps that call none of the four callbacks that assign \<^verbatim>\<open>blink_interval_ms\<close>.\<close>

fun quiet :: "callback \<Rightarrow> bool" where
  "quiet (Cdc_line_state itf dtr rts) = True"
| "quiet (Cdc_rx itf) = True"
| "quiet _ = False"

fun steady :: "step \<Rightarrow> bool" where
  "steady (Usb_step cbs) = list_all quiet cbs"
| "steady _ = True"

text \<open>
  The connection state as the spec words it (sections 3 and 4.3): three states, a
  period for each, and a transition for each of the four events. The code keeps no
  such value: it stores the period, and \<open>connection_state\<close> reads the state back from
  it.
\<close>

datatype conn_state = NOT_MOUNTED | MOUNTED | SUSPENDED

datatype usb_event = Mount_event | Unmount_event | Suspend_event bool | Resume_event

fun spec_period :: "conn_state \<Rightarrow> u32" where
  "spec_period NOT_MOUNTED = 250"
| "spec_period MOUNTED = 1000"
| "spec_period SUSPENDED = 2500"

fun spec_transition :: "conn_state \<Rightarrow> usb_event \<Rightarrow> conn_state" where
  "spec_transition c Mount_event = MOUNTED"
| "spec_transition c Unmount_event = NOT_MOUNTED"
| "spec_transition c (Suspend_event remote_wakeup_en) = SUSPENDED"
| "spec_transition c Resume_event = MOUNTED"

fun callback_of :: "usb_event \<Rightarrow> callback" where
  "callback_of Mount_event = Mount"
| "callback_of Unmount_event = Umount"
| "callback_of (Suspend_event remote_wakeup_en) = Suspend remote_wakeup_en"
| "callback_of Resume_event = Resume"

definition connection_state :: "state \<Rightarrow> conn_state option" where
  "connection_state s =
     (if blink_interval_ms s = BLINK_NOT_MOUNTED then Some NOT_MOUNTED
      else if blink_interval_ms s = BLINK_MOUNTED then Some MOUNTED
      else if blink_interval_ms s = BLINK_SUSPENDED then Some SUSPENDED
      else None)"

text \<open>
  A board to run examples on. The two macros are not in the sources, so these values
  are only an example: timer 0 on interrupt line 1, the hold mask on bit 1.
\<close>

definition example_board :: board where
  "example_board = \<lparr>TIMER0_INTERRUPT = 1, BUTTON_A_HOLD = 2\<rparr>"

section \<open>Basic facts\<close>

lemma loop_body_run: "loop_body cfg i s = run cfg (body_steps i) s"
  by (simp add: loop_body_def body_steps_def Let_def)

lemma run_append: "run cfg (xs @ ys) s = run cfg ys (run cfg xs s)"
  by (induction xs arbitrary: s) simp_all

lemma main_loop_run: "main_loop cfg is s = run cfg (concat (map body_steps is)) s"
  by (induction "is" arbitrary: s) (simp_all add: run_append loop_body_run)

lemma fold_invoke_ticks: "system_ticks (fold invoke cbs s) = system_ticks s"
proof (induction cbs arbitrary: s)
  case Nil
  show ?case by simp
next
  case (Cons cb cbs)
  have "system_ticks (invoke cb s) = system_ticks s"
    by (cases cb)
      (simp_all add: tud_mount_cb_def tud_umount_cb_def tud_suspend_cb_def tud_resume_cb_def
        tud_cdc_line_state_cb_def tud_cdc_rx_cb_def)
  with Cons show ?case by simp
qed

lemma system_ticks_isr:
  "system_ticks (isr cfg pending imask s) =
     system_ticks s + (if irq_bit (TIMER0_INTERRUPT cfg) (pending AND imask) then 1 else 0)"
  by (simp add: isr_def Let_def emit_def)

lemma system_ticks_cdc_task: "system_ticks (cdc_task avail rx uninit s) = system_ticks s"
  by (simp add: cdc_task_def Let_def emit_def split: prod.splits)

lemma system_ticks_led: "system_ticks (led_blinking_task connected s) = system_ticks s"
  by (simp add: led_blinking_task_def Let_def emit_def board_led_write_def)

lemma system_ticks_button: "system_ticks (button_watch cfg b_val s) = system_ticks s"
  by (simp add: button_watch_def emit_def)

lemma system_ticks_exec:
  "system_ticks (exec cfg st s) = system_ticks s + of_nat (timer_irqs cfg [st])"
  by (cases st)
    (simp_all add: system_ticks_isr tud_task_def fold_invoke_ticks system_ticks_cdc_task
      system_ticks_led system_ticks_button)

lemma timer_irqs_Cons: "timer_irqs cfg (st # sts) = timer_irqs cfg [st] + timer_irqs cfg sts"
  by (cases st) simp_all

lemma system_ticks_run:
  "system_ticks (run cfg sts s) = system_ticks s + of_nat (timer_irqs cfg sts)"
proof (induction sts arbitrary: s)
  case Nil
  show ?case by simp
next
  case (Cons st sts)
  have "system_ticks (run cfg (st # sts) s) =
          system_ticks (exec cfg st s) + of_nat (timer_irqs cfg sts)"
    using Cons.IH by simp
  also have "\<dots> = system_ticks s + of_nat (timer_irqs cfg [st]) + of_nat (timer_irqs cfg sts)"
    by (simp only: system_ticks_exec)
  also have "\<dots> = system_ticks s + of_nat (timer_irqs cfg (st # sts))"
    by (subst (2) timer_irqs_Cons) (simp add: add.assoc)
  finally show ?case .
qed

lemma emitted_eq: "trace s' = trace s @ xs \<Longrightarrow> emitted s s' = xs"
  by (simp add: emitted_def)

lemma emitted_self: "emitted s s = []"
  by (simp add: emitted_def)

lemma trace_isr:
  "trace (isr cfg pending imask s) =
     trace s @ (if irq_bit USB_INTERRUPT (pending AND imask) then [Tud_int_handler 0] else [])
       @ (if irq_bit (TIMER0_INTERRUPT cfg) (pending AND imask)
          then [Timer0_ev_pending_write 1] else [])"
  by (simp add: isr_def Let_def emit_def)

lemma read_then_take:
  "tud_cdc_read rx buf0 64 = (buf, n_read) \<Longrightarrow> take (unat n_read) buf = take 64 rx"
proof -
  assume r: "tud_cdc_read rx buf0 64 = (buf, n_read)"
  let ?n = "min (length rx) 64"
  have buf: "buf = take ?n rx @ drop ?n buf0" and cnt: "n_read = of_nat ?n"
    using r by (simp_all add: tud_cdc_read_def Let_def)
  have "?n < 2 ^ 32" by simp
  then have "unat n_read = ?n"
    unfolding cnt by (simp add: unat_of_nat)
  then show ?thesis
    unfolding buf by (simp add: min_def)
qed

lemma trace_cdc_task:
  "trace (cdc_task avail rx uninit s) =
     trace s @ (if avail \<noteq> 0
                then [Tud_cdc_read 64, Tud_cdc_write (take 64 rx), Tud_cdc_write_flush]
                else [])"
proof (cases "avail = 0")
  case True
  then show ?thesis by (simp add: cdc_task_def)
next
  case False
  obtain buf n_read where r: "tud_cdc_read rx (map uninit [0..<64]) 64 = (buf, n_read)"
    by (cases "tud_cdc_read rx (map uninit [0..<64]) 64")
  from read_then_take [OF r] False r show ?thesis
    by (simp add: cdc_task_def Let_def emit_def)
qed

lemma trace_led:
  "trace (led_blinking_task connected s) =
     trace s @ (if board_millis s - start_ms s < blink_interval_ms s then []
                else Leds_out_write (if led_state s then 1 else 0) #
                  (if connected
                   then [Tud_cdc_write_str (sprintf_hello (count s)), Tud_cdc_write_flush]
                   else []))"
  by (simp add: led_blinking_task_def Let_def emit_def board_led_write_def)

lemma trace_button:
  "trace (button_watch cfg b_val s) =
     trace s @ (if b_val AND BUTTON_A_HOLD cfg \<noteq> 0 then [Reboot_ctrl_write 0xac] else [])"
  by (simp add: button_watch_def emit_def)

lemma trace_invoke: "trace (invoke cb s) = trace s"
  by (cases cb)
    (simp_all add: tud_mount_cb_def tud_umount_cb_def tud_suspend_cb_def tud_resume_cb_def
      tud_cdc_line_state_cb_def tud_cdc_rx_cb_def)

lemma trace_tud_task: "trace (tud_task cbs s) = trace s"
  unfolding tud_task_def by (induction cbs arbitrary: s) (simp_all add: trace_invoke)

lemma trace_exec_grows: "\<exists>xs. trace (exec cfg st s) = trace s @ xs"
  by (cases st) (simp_all add: trace_isr trace_tud_task trace_cdc_task trace_led trace_button)

lemma trace_run_grows: "\<exists>xs. trace (run cfg sts s) = trace s @ xs"
proof (induction sts arbitrary: s)
  case Nil
  show ?case by simp
next
  case (Cons st sts)
  obtain xs where xs: "trace (exec cfg st s) = trace s @ xs"
    using trace_exec_grows by blast
  obtain ys where "trace (run cfg sts (exec cfg st s)) = trace (exec cfg st s) @ ys"
    using Cons.IH by blast
  with xs show ?case by simp
qed

lemma trace_run: "trace (run cfg sts s) = trace s @ emitted s (run cfg sts s)"
  using trace_run_grows [of cfg sts s] by (auto simp: emitted_def)

lemma trace_exec: "trace (exec cfg st s) = trace s @ emitted s (exec cfg st s)"
  using trace_run [of cfg "[st]" s] by simp

lemma emitted_run_Cons:
  "emitted s (run cfg (st # sts) s) =
     emitted s (exec cfg st s) @ emitted (exec cfg st s) (run cfg sts (exec cfg st s))"
proof -
  have "trace (run cfg (st # sts) s) =
          trace s @ emitted s (exec cfg st s) @ emitted (exec cfg st s) (run cfg sts (exec cfg st s))"
    using trace_run [of cfg sts "exec cfg st s"] trace_exec [of cfg st s] by simp
  then show ?thesis by (rule emitted_eq)
qed

lemma emitted_isr:
  "emitted s (isr cfg pending imask s) =
     (if irq_bit USB_INTERRUPT (pending AND imask) then [Tud_int_handler 0] else [])
       @ (if irq_bit (TIMER0_INTERRUPT cfg) (pending AND imask)
          then [Timer0_ev_pending_write 1] else [])"
  by (rule emitted_eq) (rule trace_isr)

lemma emitted_cdc_task:
  "emitted s (cdc_task avail rx uninit s) =
     (if avail \<noteq> 0
      then [Tud_cdc_read 64, Tud_cdc_write (take 64 rx), Tud_cdc_write_flush]
      else [])"
  by (rule emitted_eq) (rule trace_cdc_task)

lemma emitted_led:
  "emitted s (led_blinking_task connected s) =
     (if board_millis s - start_ms s < blink_interval_ms s then []
      else Leds_out_write (if led_state s then 1 else 0) #
        (if connected
         then [Tud_cdc_write_str (sprintf_hello (count s)), Tud_cdc_write_flush]
         else []))"
  by (rule emitted_eq) (rule trace_led)

lemma emitted_button:
  "emitted s (button_watch cfg b_val s) =
     (if b_val AND BUTTON_A_HOLD cfg \<noteq> 0 then [Reboot_ctrl_write 0xac] else [])"
  by (rule emitted_eq) (rule trace_button)

lemma emitted_tud_task: "emitted s (tud_task cbs s) = []"
  by (rule emitted_eq) (simp add: trace_tud_task)

lemma isr_frame:
  "blink_interval_ms (isr cfg pending imask s) = blink_interval_ms s \<and>
   start_ms (isr cfg pending imask s) = start_ms s \<and>
   led_state (isr cfg pending imask s) = led_state s \<and>
   count (isr cfg pending imask s) = count s"
  by (simp add: isr_def Let_def emit_def)

lemma cdc_task_frame:
  "blink_interval_ms (cdc_task avail rx uninit s) = blink_interval_ms s \<and>
   start_ms (cdc_task avail rx uninit s) = start_ms s \<and>
   led_state (cdc_task avail rx uninit s) = led_state s \<and>
   count (cdc_task avail rx uninit s) = count s"
  by (simp add: cdc_task_def Let_def emit_def split: prod.splits)

lemma button_watch_frame:
  "blink_interval_ms (button_watch cfg b_val s) = blink_interval_ms s \<and>
   start_ms (button_watch cfg b_val s) = start_ms s \<and>
   led_state (button_watch cfg b_val s) = led_state s \<and>
   count (button_watch cfg b_val s) = count s"
  by (simp add: button_watch_def emit_def)

lemma invoke_frame:
  "start_ms (invoke cb s) = start_ms s \<and> led_state (invoke cb s) = led_state s \<and>
   count (invoke cb s) = count s"
  by (cases cb)
    (simp_all add: tud_mount_cb_def tud_umount_cb_def tud_suspend_cb_def tud_resume_cb_def
      tud_cdc_line_state_cb_def tud_cdc_rx_cb_def)

lemma tud_task_frame:
  "start_ms (tud_task cbs s) = start_ms s \<and> led_state (tud_task cbs s) = led_state s \<and>
   count (tud_task cbs s) = count s"
  unfolding tud_task_def by (induction cbs arbitrary: s) (simp_all add: invoke_frame)

lemma toggles_append: "toggles (xs @ ys) = toggles xs + toggles ys"
  by (simp add: toggles_def)

lemma greetings_append: "greetings (xs @ ys) = greetings xs @ greetings ys"
  by (induction xs rule: greetings.induct) simp_all

lemma invoke_quiet: "quiet cb \<Longrightarrow> invoke cb s = s"
  by (cases cb) (simp_all add: tud_cdc_line_state_cb_def tud_cdc_rx_cb_def)

lemma tud_task_quiet: "list_all quiet cbs \<Longrightarrow> tud_task cbs s = s"
  unfolding tud_task_def by (induction cbs) (simp_all add: invoke_quiet)

lemma led_blinking_task_wait:
  "board_millis s - start_ms s < blink_interval_ms s \<Longrightarrow> led_blinking_task connected s = s"
  by (simp add: led_blinking_task_def)

lemma led_blinking_task_fire:
  "\<not> board_millis s - start_ms s < blink_interval_ms s \<Longrightarrow>
   start_ms (led_blinking_task connected s) = start_ms s + blink_interval_ms s \<and>
   led_state (led_blinking_task connected s) = (\<not> led_state s) \<and>
   blink_interval_ms (led_blinking_task connected s) = blink_interval_ms s \<and>
   count (led_blinking_task connected s) = (if connected then count s + 1 else count s)"
  by (simp add: led_blinking_task_def Let_def emit_def board_led_write_def)

text \<open>One step that leaves the period alone: the timestamp moves by one period per LED write.\<close>

lemma start_ms_exec:
  assumes "steady st"
  shows "start_ms (exec cfg st s) =
           start_ms s + of_nat (toggles (emitted s (exec cfg st s))) * blink_interval_ms s \<and>
         blink_interval_ms (exec cfg st s) = blink_interval_ms s"
proof (cases st)
  case (Interrupt pending imask)
  then show ?thesis
    by (simp add: emitted_isr toggles_def isr_frame)
next
  case (Usb_step cbs)
  with assms have "tud_task cbs s = s" by (simp add: tud_task_quiet)
  with Usb_step show ?thesis by (simp add: emitted_self toggles_def)
next
  case (Cdc_step avail rx uninit)
  then show ?thesis
    by (simp add: emitted_cdc_task toggles_def cdc_task_frame)
next
  case (Led_step connected)
  show ?thesis
  proof (cases "board_millis s - start_ms s < blink_interval_ms s")
    case True
    with Led_step show ?thesis
      by (simp add: led_blinking_task_wait emitted_self toggles_def)
  next
    case False
    with Led_step show ?thesis
      by (simp add: led_blinking_task_fire emitted_led toggles_def)
  qed
next
  case (Button_step b_val)
  then show ?thesis
    by (simp add: emitted_button toggles_def button_watch_frame)
qed

lemma start_ms_run:
  "list_all steady sts \<Longrightarrow>
   start_ms (run cfg sts s) =
     start_ms s + of_nat (toggles (emitted s (run cfg sts s))) * blink_interval_ms s"
proof (induction sts arbitrary: s)
  case Nil
  show ?case by (simp add: emitted_self toggles_def)
next
  case (Cons st sts)
  let ?s1 = "exec cfg st s"
  from Cons.prems have st: "steady st" and sts: "list_all steady sts" by simp_all
  have "start_ms (run cfg (st # sts) s) =
          start_ms ?s1 + of_nat (toggles (emitted ?s1 (run cfg sts ?s1))) * blink_interval_ms ?s1"
    using Cons.IH [OF sts] by simp
  also have "\<dots> = start_ms s + of_nat (toggles (emitted s ?s1)) * blink_interval_ms s
                  + of_nat (toggles (emitted ?s1 (run cfg sts ?s1))) * blink_interval_ms s"
    using start_ms_exec [OF st, of cfg s] by simp
  also have "\<dots> = start_ms s
                  + of_nat (toggles (emitted s (run cfg (st # sts) s))) * blink_interval_ms s"
    by (simp only: emitted_run_Cons toggles_append of_nat_add distrib_right add.assoc)
  finally show ?case .
qed

lemma greet_exec:
  "greetings (emitted s (exec cfg st s)) = [] \<and> count (exec cfg st s) = count s \<or>
   greetings (emitted s (exec cfg st s)) = [sprintf_hello (count s)] \<and>
     count (exec cfg st s) = count s + 1"
proof (cases st)
  case (Interrupt pending imask)
  then show ?thesis
    by (simp add: emitted_isr isr_frame)
next
  case (Usb_step cbs)
  then show ?thesis
    by (simp add: emitted_tud_task tud_task_frame)
next
  case (Cdc_step avail rx uninit)
  then show ?thesis
    by (simp add: emitted_cdc_task cdc_task_frame)
next
  case (Led_step connected)
  show ?thesis
  proof (cases "board_millis s - start_ms s < blink_interval_ms s")
    case True
    with Led_step show ?thesis
      by (simp add: led_blinking_task_wait emitted_self)
  next
    case False
    with Led_step show ?thesis
      by (simp add: led_blinking_task_fire emitted_led)
  qed
next
  case (Button_step b_val)
  then show ?thesis
    by (simp add: emitted_button button_watch_frame)
qed

lemma count_exec:
  "count (exec cfg st s) = count s + of_nat (length (greetings (emitted s (exec cfg st s))))"
  using greet_exec [of s cfg st] by auto

lemma greetings_exec:
  assumes g: "greetings (trace s) = map (\<lambda>k. sprintf_hello (of_nat k)) [0..<n]"
    and c: "count s = of_nat n"
  shows "\<exists>m. greetings (trace (exec cfg st s)) = map (\<lambda>k. sprintf_hello (of_nat k)) [0..<m] \<and>
             count (exec cfg st s) = of_nat m"
proof -
  have tr: "greetings (trace (exec cfg st s)) =
              greetings (trace s) @ greetings (emitted s (exec cfg st s))"
    by (subst trace_exec) (simp add: greetings_append)
  from greet_exec [of s cfg st] show ?thesis
  proof
    assume "greetings (emitted s (exec cfg st s)) = [] \<and> count (exec cfg st s) = count s"
    with tr g c show ?thesis by auto
  next
    assume "greetings (emitted s (exec cfg st s)) = [sprintf_hello (count s)] \<and>
      count (exec cfg st s) = count s + 1"
    with tr g c have
      "greetings (trace (exec cfg st s)) = map (\<lambda>k. sprintf_hello (of_nat k)) [0..<Suc n] \<and>
       count (exec cfg st s) = of_nat (Suc n)"
      by simp
    then show ?thesis by blast
  qed
qed

lemma greetings_run:
  "greetings (trace s) = map (\<lambda>k. sprintf_hello (of_nat k)) [0..<n] \<Longrightarrow> count s = of_nat n \<Longrightarrow>
   \<exists>m. greetings (trace (run cfg sts s)) = map (\<lambda>k. sprintf_hello (of_nat k)) [0..<m] \<and>
       count (run cfg sts s) = of_nat m"
proof (induction sts arbitrary: s n)
  case Nil
  then show ?case by auto
next
  case (Cons st sts)
  from greetings_exec [OF Cons.prems] obtain m where
    "greetings (trace (exec cfg st s)) = map (\<lambda>k. sprintf_hello (of_nat k)) [0..<m]"
    "count (exec cfg st s) = of_nat m"
    by blast
  from Cons.IH [OF this] show ?case by simp
qed

lemma sprintf_hello_of_nat:
  "sprintf_hello (of_nat k) = ''Hello! '' @ fmt_u (k mod 2 ^ 32) @ [CHR 0x0D, CHR 0x0A]"
  by (simp add: sprintf_hello_def unat_of_nat)

lemma connection_state_period:
  "connection_state s = Some c \<Longrightarrow> blink_interval_ms s = spec_period c"
  by (cases c)
    (auto simp: connection_state_def BLINK_NOT_MOUNTED_def BLINK_MOUNTED_def BLINK_SUSPENDED_def
      split: if_splits)

lemma connection_state_defined:
  "(\<exists>c. connection_state s = Some c) \<longleftrightarrow> blink_interval_ms s \<in> {250, 1000, 2500}"
  by (auto simp: connection_state_def BLINK_NOT_MOUNTED_def BLINK_MOUNTED_def BLINK_SUSPENDED_def)

lemma blink_invoke:
  "blink_interval_ms s \<in> {250, 1000, 2500} \<Longrightarrow> blink_interval_ms (invoke cb s) \<in> {250, 1000, 2500}"
  by (cases cb)
    (simp_all add: tud_mount_cb_def tud_umount_cb_def tud_suspend_cb_def
      tud_resume_cb_def tud_cdc_line_state_cb_def tud_cdc_rx_cb_def
      BLINK_NOT_MOUNTED_def BLINK_MOUNTED_def BLINK_SUSPENDED_def)

lemma blink_tud_task:
  "blink_interval_ms s \<in> {250, 1000, 2500} \<Longrightarrow>
   blink_interval_ms (tud_task cbs s) \<in> {250, 1000, 2500}"
  unfolding tud_task_def
proof (induction cbs arbitrary: s)
  case Nil
  then show ?case by simp
next
  case (Cons cb cbs)
  from Cons.prems have "blink_interval_ms (invoke cb s) \<in> {250, 1000, 2500}"
    by (rule blink_invoke)
  then have "blink_interval_ms (fold invoke cbs (invoke cb s)) \<in> {250, 1000, 2500}"
    by (rule Cons.IH)
  then show ?case by simp
qed

lemma blink_isr: "blink_interval_ms (isr cfg pending imask s) = blink_interval_ms s"
  by (simp add: isr_def Let_def emit_def)

lemma blink_cdc_task: "blink_interval_ms (cdc_task avail rx uninit s) = blink_interval_ms s"
  by (simp add: cdc_task_def Let_def emit_def split: prod.splits)

lemma blink_led: "blink_interval_ms (led_blinking_task connected s) = blink_interval_ms s"
  by (simp add: led_blinking_task_def Let_def emit_def board_led_write_def)

lemma blink_button: "blink_interval_ms (button_watch cfg b_val s) = blink_interval_ms s"
  by (simp add: button_watch_def emit_def)

lemma blink_exec:
  "blink_interval_ms s \<in> {250, 1000, 2500} \<Longrightarrow>
   blink_interval_ms (exec cfg st s) \<in> {250, 1000, 2500}"
proof (cases st)
  case (Usb_step cbs)
  assume "blink_interval_ms s \<in> {250, 1000, 2500}"
  then have "blink_interval_ms (tud_task cbs s) \<in> {250, 1000, 2500}"
    by (rule blink_tud_task)
  with Usb_step show ?thesis by simp
qed (simp_all add: blink_isr blink_cdc_task blink_led blink_button)

lemma blink_run:
  "blink_interval_ms s \<in> {250, 1000, 2500} \<Longrightarrow>
   blink_interval_ms (run cfg sts s) \<in> {250, 1000, 2500}"
proof (induction sts arbitrary: s)
  case Nil
  then show ?case by simp
next
  case (Cons st sts)
  from Cons.prems have "blink_interval_ms (exec cfg st s) \<in> {250, 1000, 2500}"
    by (rule blink_exec)
  then have "blink_interval_ms (run cfg sts (exec cfg st s)) \<in> {250, 1000, 2500}"
    by (rule Cons.IH)
  then show ?case by simp
qed

lemma emitted_loop_body:
  "emitted s (loop_body cfg i s) =
     (if cdc_available i \<noteq> 0
      then [Tud_cdc_read 64, Tud_cdc_write (take 64 (cdc_rx i)), Tud_cdc_write_flush] else [])
     @ emitted (cdc_task (cdc_available i) (cdc_rx i) (stack_bytes i) (tud_task (callbacks i) s))
         (led_blinking_task (cdc_connected i)
           (cdc_task (cdc_available i) (cdc_rx i) (stack_bytes i) (tud_task (callbacks i) s)))
     @ (if button_raw i AND BUTTON_A_HOLD cfg \<noteq> 0 then [Reboot_ctrl_write 0xac] else [])"
  by (rule emitted_eq)
    (simp add: loop_body_def Let_def trace_button trace_cdc_task trace_tud_task
      emitted_eq [OF trace_led] trace_led)

lemma no_reset_led: "filter is_reset (emitted s (led_blinking_task connected s)) = []"
  by (simp add: emitted_eq [OF trace_led])

lemma sprintf_hello_0: "sprintf_hello 0 = ''Hello! 0'' @ [CHR 0x0D, CHR 0x0A]"
  by (simp add: sprintf_hello_def fmt_u.simps digit_def)

lemma and_single_bit:
  "(x :: u32) AND push_bit n 1 = (if bit x n then push_bit n 1 else 0)"
  by (rule bit_eqI) (auto simp: bit_simps dest: bit_imp_le_length)

lemma single_bit_nonzero: "n < 32 \<Longrightarrow> (push_bit n 1 :: u32) \<noteq> 0"
  by simp

lemma resets_loop_body:
  "filter is_reset (emitted s (loop_body cfg i s)) =
     (if button_raw i AND BUTTON_A_HOLD cfg = 0 then [] else [Reboot_ctrl_write 0xac])"
  by (simp add: emitted_loop_body no_reset_led)

section \<open>The tick counter\<close>

text \<open>
  Claim C1. Whenever the dispatcher is entered and the timer bit is set in
  \<open>pending AND imask\<close>, the tick counter goes up by exactly one (modulo \<open>2 ^ 32\<close>) and 1
  is written to the timer's acknowledge register, after the USB handler if the USB bit
  is set too; \<open>N\<close> such entries back to back add exactly \<open>N\<close>. In any execution, with
  interrupts anywhere between the parts of the loop body, the counter has gone up by
  exactly the number of timer interrupts taken: nothing else writes it.
\<close>

theorem isr_counts_every_tick:
  "(irq_bit (TIMER0_INTERRUPT cfg) (pending AND imask) \<longrightarrow>
      system_ticks (isr cfg pending imask s) = system_ticks s + 1 \<and>
      emitted s (isr cfg pending imask s) =
        (if irq_bit USB_INTERRUPT (pending AND imask) then [Tud_int_handler 0] else [])
          @ [Timer0_ev_pending_write 1] \<and>
      system_ticks (run cfg (replicate N (Interrupt pending imask)) s) = system_ticks s + of_nat N)
   \<and> system_ticks (run cfg sts s) = system_ticks s + of_nat (timer_irqs cfg sts)"
proof -
  have rep: "timer_irqs cfg (replicate N (Interrupt pending imask)) = N"
    if "irq_bit (TIMER0_INTERRUPT cfg) (pending AND imask)"
    using that by (induction N) simp_all
  show ?thesis
    by (auto simp: system_ticks_isr system_ticks_run rep intro!: emitted_eq simp: trace_isr)
qed

theorem isr_counts_every_tick_witness:
  "irq_bit (TIMER0_INTERRUPT example_board) (0x12 AND 0x1F)
   \<and> system_ticks (isr example_board 0x12 0x1F (boot 0xFFFFFFFF)) = 0
   \<and> emitted (boot 0xFFFFFFFF) (isr example_board 0x12 0x1F (boot 0xFFFFFFFF))
       = [Tud_int_handler 0, Timer0_ev_pending_write 1]
   \<and> system_ticks (run example_board
        (replicate 3 (Interrupt 0x12 0x1F)) (boot 0xFFFFFFFF)) = 2
   \<and> system_ticks (run example_board
        [Interrupt 2 2, Led_step False, Interrupt 0x10 0x10, Interrupt 3 3] (boot 7)) = 9"
  using isr_counts_every_tick [of "example_board" "0x12" "0x1F"
      "boot 0xFFFFFFFF" 3 "[Interrupt 2 2, Led_step False, Interrupt 0x10 0x10, Interrupt 3 3]"]
    isr_counts_every_tick [of "example_board" "0x12" "0x1F"
      "boot 7" 3 "[Interrupt 2 2, Led_step False, Interrupt 0x10 0x10, Interrupt 3 3]"]
  by (simp add: irq_bit_def USB_INTERRUPT_def boot_def example_board_def)

section \<open>USB CDC echo\<close>

text \<open>
  Claim C2, as amended. The claim says that a read returning 0 bytes is followed by no
  write and no flush. \<^verbatim>\<open>cdc_task\<close> does not look at the count: when bytes were reported
  available and the read returns 0, it still calls \<^verbatim>\<open>tud_cdc_write\<close>, with a length of 0
  (so no byte is handed over), and then \<^verbatim>\<open>tud_cdc_write_flush\<close>, once each.
\<close>

theorem cdc_task_empty_read:
  assumes "avail \<noteq> 0" and "snd (tud_cdc_read rx (map uninit [0..<64]) 64) = 0"
  shows "emitted s (cdc_task avail rx uninit s) =
           [Tud_cdc_read 64, Tud_cdc_write [], Tud_cdc_write_flush]"
proof -
  have "unat (of_nat (min (length rx) 64) :: u32) = min (length rx) 64"
    by (simp add: unat_of_nat)
  with assms(2) have "min (length rx) 64 = 0"
    by (simp add: tud_cdc_read_def Let_def)
  then have "rx = []" by (simp add: min_def split: if_splits)
  with assms(1) show ?thesis by (simp add: emitted_cdc_task)
qed

theorem cdc_task_empty_read_witness:
  "emitted (boot 5) (cdc_task 1 [] (\<lambda>k. 0) (boot 5)) =
     [Tud_cdc_read 64, Tud_cdc_write [], Tud_cdc_write_flush]"
  using cdc_task_empty_read [of 1 "[]" "\<lambda>k. 0" "boot 5"]
  by (simp add: tud_cdc_read_def)

text \<open>
  The claim as stated fails: one byte reported available, the read returns 0, and the
  write and the flush are both called.
\<close>

theorem cdc_task_empty_read_counterexample:
  "snd (tud_cdc_read [] (map (\<lambda>k. 0xEE) [0..<64]) 64) = 0 \<and>
   emitted (boot 0) (cdc_task 1 [] (\<lambda>k. 0xEE) (boot 0)) =
     [Tud_cdc_read 64, Tud_cdc_write [], Tud_cdc_write_flush]"
  by (simp add: tud_cdc_read_def emitted_cdc_task)

text \<open>
  Claim C7. When bytes are reported available and the read delivers a sequence \<open>rx\<close>
  of at most 64 bytes, \<^verbatim>\<open>cdc_task\<close> reads once with the buffer's capacity, hands exactly
  \<open>rx\<close> to \<^verbatim>\<open>tud_cdc_write\<close> (same bytes, same order, same count, whatever the rest of the
  buffer held), and then flushes. A short read is echoed at its own length.
\<close>

theorem cdc_task_echo:
  assumes "avail \<noteq> 0" and "length rx \<le> 64"
  shows "emitted s (cdc_task avail rx uninit s) =
           [Tud_cdc_read 64, Tud_cdc_write rx, Tud_cdc_write_flush]"
proof -
  from assms(2) have "take 64 rx = rx" by simp
  with assms(1) show ?thesis by (simp add: emitted_cdc_task)
qed

theorem cdc_task_echo_witness:
  "emitted (boot 0) (cdc_task 3 [0x48, 0x69, 0x0A] (\<lambda>k. 0xEE) (boot 0)) =
     [Tud_cdc_read 64, Tud_cdc_write [0x48, 0x69, 0x0A], Tud_cdc_write_flush]"
  using cdc_task_echo [of 3 "[0x48, 0x69, 0x0A]" "boot 0" "\<lambda>k. 0xEE"] by simp

text \<open>
  Claim C8. With no received byte available, \<^verbatim>\<open>cdc_task\<close> is a no-op: the state it
  returns is the state it was given, and it has made no call (no read, no write, no
  flush).
\<close>

theorem cdc_task_nothing_available:
  "cdc_task 0 rx uninit s = s \<and> emitted s (cdc_task 0 rx uninit s) = []"
  by (simp add: cdc_task_def emitted_self)

section \<open>Blink period and connection state\<close>

text \<open>
  Claim C5. The loop starts in NOT_MOUNTED with period 250. From every state, the mount
  callback gives MOUNTED and 1000, the unmount callback NOT_MOUNTED and 250, the
  suspend callback (either flag) SUSPENDED and 2500, the resume callback MOUNTED and
  1000: the callbacks follow the spec's transition table whatever the state before.
  In every state an execution reaches, the stored period is one of the three, and it
  is the spec's period of the connection state it stands for.
\<close>

theorem blink_period_state_machine:
  "connection_state (boot t0) = Some NOT_MOUNTED \<and> blink_interval_ms (boot t0) = 250 \<and>
   (connection_state (tud_mount_cb s), blink_interval_ms (tud_mount_cb s)) = (Some MOUNTED, 1000) \<and>
   (connection_state (tud_umount_cb s), blink_interval_ms (tud_umount_cb s)) =
     (Some NOT_MOUNTED, 250) \<and>
   (connection_state (tud_suspend_cb en s), blink_interval_ms (tud_suspend_cb en s)) =
     (Some SUSPENDED, 2500) \<and>
   (connection_state (tud_resume_cb s), blink_interval_ms (tud_resume_cb s)) = (Some MOUNTED, 1000) \<and>
   connection_state (invoke (callback_of ev) s) = Some (spec_transition c ev) \<and>
   blink_interval_ms (invoke (callback_of ev) s) = spec_period (spec_transition c ev) \<and>
   (\<exists>c'. connection_state (run cfg sts (boot t0)) = Some c' \<and>
         blink_interval_ms (run cfg sts (boot t0)) = spec_period c')"
proof -
  have cbs: "connection_state (invoke (callback_of ev) s) = Some (spec_transition c ev)"
    by (cases ev)
      (simp_all add: connection_state_def tud_mount_cb_def tud_umount_cb_def tud_suspend_cb_def
        tud_resume_cb_def BLINK_NOT_MOUNTED_def BLINK_MOUNTED_def BLINK_SUSPENDED_def)
  have "blink_interval_ms (run cfg sts (boot t0)) \<in> {250, 1000, 2500}"
    by (rule blink_run) (simp add: boot_def BLINK_NOT_MOUNTED_def)
  then obtain c' where c': "connection_state (run cfg sts (boot t0)) = Some c'"
    unfolding connection_state_defined [symmetric] by blast
  have reach: "\<exists>c'. connection_state (run cfg sts (boot t0)) = Some c' \<and>
         blink_interval_ms (run cfg sts (boot t0)) = spec_period c'"
    using c' connection_state_period [OF c'] by blast
  have fixed:
    "connection_state (boot t0) = Some NOT_MOUNTED" "blink_interval_ms (boot t0) = 250"
    "(connection_state (tud_mount_cb s), blink_interval_ms (tud_mount_cb s)) = (Some MOUNTED, 1000)"
    "(connection_state (tud_umount_cb s), blink_interval_ms (tud_umount_cb s)) =
       (Some NOT_MOUNTED, 250)"
    "(connection_state (tud_suspend_cb en s), blink_interval_ms (tud_suspend_cb en s)) =
       (Some SUSPENDED, 2500)"
    "(connection_state (tud_resume_cb s), blink_interval_ms (tud_resume_cb s)) = (Some MOUNTED, 1000)"
    by (simp_all add: connection_state_def boot_def tud_mount_cb_def tud_umount_cb_def
        tud_suspend_cb_def tud_resume_cb_def BLINK_NOT_MOUNTED_def BLINK_MOUNTED_def
        BLINK_SUSPENDED_def)
  show ?thesis
    using fixed cbs connection_state_period [OF cbs] reach by blast
qed

text \<open>
  Claim C9. The line-state callback (any interface, DTR, RTS) and the data-received
  callback (any interface) return the state they were given, so any number of them
  delivered by the USB task changes nothing. The suspend callback does the same for
  both values of the remote-wakeup flag: it sets the period to 2500 and nothing else.
\<close>

theorem inert_callbacks:
  "tud_cdc_line_state_cb itf dtr rts s = s \<and>
   tud_cdc_rx_cb itf s = s \<and>
   tud_suspend_cb remote_wakeup_en s = s\<lparr>blink_interval_ms := 2500\<rparr> \<and>
   tud_suspend_cb True s = tud_suspend_cb False s \<and>
   tud_task (map (\<lambda>(itf, dtr, rts). Cdc_line_state itf dtr rts) ls @ map Cdc_rx rs) s = s"
proof -
  have "list_all quiet (map (\<lambda>(itf, dtr, rts). Cdc_line_state itf dtr rts) ls @ map Cdc_rx rs)"
    by (auto simp: list_all_iff)
  then have
    "tud_task (map (\<lambda>(itf, dtr, rts). Cdc_line_state itf dtr rts) ls @ map Cdc_rx rs) s = s"
    by (rule tud_task_quiet)
  then show ?thesis
    by (simp add: tud_cdc_line_state_cb_def tud_cdc_rx_cb_def tud_suspend_cb_def
        BLINK_SUSPENDED_def)
qed

section \<open>Blinking task\<close>

text \<open>
  Claim C3, as amended. The claim makes the greeting depend on the connection state
  being MOUNTED as well as on the logical connection. \<^verbatim>\<open>led_blinking_task\<close> tests only
  \<^verbatim>\<open>tud_cdc_connected()\<close>: in every invocation in which the elapsed-time gate passes, the
  indicator is toggled (the level held is written to the LED, then inverted) and the
  greeting with the counter's value, followed by a flush, is sent if and only if that
  call reports a connection. This is the claim's own condition, MOUNTED and connected,
  whenever a connection is reported only while the state is MOUNTED. When the gate
  does not pass, the state is returned as it was, with no toggle and no greeting: both
  are behind the one gate.
\<close>

theorem greeting_gate:
  "(board_millis s - start_ms s < blink_interval_ms s \<longrightarrow> led_blinking_task connected s = s) \<and>
   (\<not> board_millis s - start_ms s < blink_interval_ms s \<longrightarrow>
      led_state (led_blinking_task connected s) = (\<not> led_state s) \<and>
      emitted s (led_blinking_task connected s) =
        Leds_out_write (if led_state s then 1 else 0) #
          (if connected
           then [Tud_cdc_write_str (sprintf_hello (count s)), Tud_cdc_write_flush]
           else []) \<and>
      (greetings (emitted s (led_blinking_task connected s)) = [sprintf_hello (count s)]
         \<longleftrightarrow> connected) \<and>
      ((connected \<longrightarrow> connection_state s = Some MOUNTED) \<longrightarrow>
         (greetings (emitted s (led_blinking_task connected s)) = [sprintf_hello (count s)]
            \<longleftrightarrow> connection_state s = Some MOUNTED \<and> connected)))"
  by (auto simp: led_blinking_task_wait led_blinking_task_fire emitted_led)

theorem greeting_gate_witness:
  "led_blinking_task True (boot 100) = boot 100 \<and>
   led_state (led_blinking_task False (boot 250)) \<and>
   emitted (boot 250) (led_blinking_task False (boot 250)) = [Leds_out_write 0] \<and>
   connection_state (tud_mount_cb (boot 1000)) = Some MOUNTED \<and>
   led_state (led_blinking_task True (tud_mount_cb (boot 1000))) \<and>
   emitted (tud_mount_cb (boot 1000)) (led_blinking_task True (tud_mount_cb (boot 1000))) =
     [Leds_out_write 0, Tud_cdc_write_str (''Hello! 0'' @ [CHR 0x0D, CHR 0x0A]),
      Tud_cdc_write_flush] \<and>
   greetings
     (emitted (tud_mount_cb (boot 1000)) (led_blinking_task True (tud_mount_cb (boot 1000)))) =
     [''Hello! 0'' @ [CHR 0x0D, CHR 0x0A]]"
proof -
  have wait: "board_millis (boot 100) - start_ms (boot 100) < blink_interval_ms (boot 100)"
    by (simp add: board_millis_def boot_def BLINK_NOT_MOUNTED_def)
  have fire1: "\<not> board_millis (boot 250) - start_ms (boot 250) < blink_interval_ms (boot 250)"
    by (simp add: board_millis_def boot_def BLINK_NOT_MOUNTED_def)
  have fire2: "\<not> board_millis (tud_mount_cb (boot 1000)) - start_ms (tud_mount_cb (boot 1000))
                 < blink_interval_ms (tud_mount_cb (boot 1000))"
    by (simp add: board_millis_def boot_def tud_mount_cb_def BLINK_MOUNTED_def)
  have mounted: "connection_state (tud_mount_cb (boot 1000)) = Some MOUNTED"
    by (simp add: connection_state_def tud_mount_cb_def BLINK_NOT_MOUNTED_def BLINK_MOUNTED_def)
  have vals: "led_state (boot 250) = False" "led_state (tud_mount_cb (boot 1000)) = False"
    "count (tud_mount_cb (boot 1000)) = 0"
    by (simp_all add: boot_def tud_mount_cb_def)
  from greeting_gate [of "boot 100" True] wait
  have a: "led_blinking_task True (boot 100) = boot 100" by blast
  from greeting_gate [of "boot 250" False] fire1
  have b: "led_state (led_blinking_task False (boot 250)) = (\<not> led_state (boot 250))"
    "emitted (boot 250) (led_blinking_task False (boot 250)) =
       [Leds_out_write (if led_state (boot 250) then 1 else 0)]"
    by simp_all
  from greeting_gate [of "tud_mount_cb (boot 1000)" True] fire2 mounted
  have c: "led_state (led_blinking_task True (tud_mount_cb (boot 1000)))
             = (\<not> led_state (tud_mount_cb (boot 1000)))"
    "emitted (tud_mount_cb (boot 1000)) (led_blinking_task True (tud_mount_cb (boot 1000))) =
       [Leds_out_write (if led_state (tud_mount_cb (boot 1000)) then 1 else 0),
        Tud_cdc_write_str (sprintf_hello (count (tud_mount_cb (boot 1000)))), Tud_cdc_write_flush]"
    "greetings
       (emitted (tud_mount_cb (boot 1000)) (led_blinking_task True (tud_mount_cb (boot 1000)))) =
       [sprintf_hello (count (tud_mount_cb (boot 1000)))]"
    by simp_all
  from a b c mounted show ?thesis
    by (simp add: vals sprintf_hello_0)
qed

text \<open>
  The claim as stated fails on this file: no callback has run, so the state is
  NOT_MOUNTED with period 250; 250 timer interrupts later the gate passes, and if
  \<^verbatim>\<open>tud_cdc_connected()\<close> then reports a connection the greeting is sent. Whether the USB
  stack can report one in that state is not decided by this file.
\<close>

theorem greeting_gate_counterexample:
  "connection_state
     (run example_board (replicate 250 (Interrupt 2 2)) (boot 0))
     = Some NOT_MOUNTED \<and>
   \<not> board_millis
       (run example_board (replicate 250 (Interrupt 2 2)) (boot 0))
     - start_ms
       (run example_board (replicate 250 (Interrupt 2 2)) (boot 0))
     < blink_interval_ms
       (run example_board (replicate 250 (Interrupt 2 2)) (boot 0)) \<and>
   emitted
     (run example_board (replicate 250 (Interrupt 2 2)) (boot 0))
     (led_blinking_task True
       (run example_board (replicate 250 (Interrupt 2 2)) (boot 0)))
     = [Leds_out_write 0, Tud_cdc_write_str (''Hello! 0'' @ [CHR 0x0D, CHR 0x0A]),
        Tud_cdc_write_flush]"
proof -
  let ?s = "run example_board (replicate 250 (Interrupt 2 2)) (boot 0)"
  have frame:
    "blink_interval_ms (run example_board (replicate n (Interrupt 2 2)) s) = blink_interval_ms s \<and>
     start_ms (run example_board (replicate n (Interrupt 2 2)) s) = start_ms s \<and>
     led_state (run example_board (replicate n (Interrupt 2 2)) s) = led_state s \<and>
     count (run example_board (replicate n (Interrupt 2 2)) s) = count s" for n s
    by (induction n arbitrary: s) (simp_all add: isr_frame)
  have "timer_irqs example_board (replicate n (Interrupt 2 2)) = n" for n
    by (induction n) (simp_all add: irq_bit_def example_board_def)
  then have "system_ticks ?s = system_ticks (boot 0) + of_nat 250"
    by (simp only: system_ticks_run)
  then have ticks: "system_ticks ?s = 250"
    by (simp add: boot_def)
  have fields: "blink_interval_ms ?s = 250" "start_ms ?s = 0" "led_state ?s = False" "count ?s = 0"
    using frame [of 250 "boot 0"] by (simp_all add: boot_def BLINK_NOT_MOUNTED_def)
  show ?thesis
    by (simp add: emitted_led connection_state_def board_millis_def ticks fields
        BLINK_NOT_MOUNTED_def sprintf_hello_0)
qed

text \<open>
  Claim C6. If the wrapping difference between the tick count and the last-toggle
  timestamp is below the blink period, \<^verbatim>\<open>led_blinking_task\<close> returns the state unchanged
  (timestamp, level, greeting counter, and nothing written). Otherwise the timestamp
  advances by exactly one period, not to the tick count. So over any execution in
  which no callback assigns the period, however the interrupts and the loop's parts
  interleave, the timestamp after \<open>k\<close> LED writes is the first one plus \<open>k\<close> periods
  (modulo \<open>2 ^ 32\<close>): successive toggle timestamps are one period apart.
\<close>

theorem blink_gate_and_phase:
  "(board_millis s - start_ms s < blink_interval_ms s \<longrightarrow> led_blinking_task connected s = s) \<and>
   (\<not> board_millis s - start_ms s < blink_interval_ms s \<longrightarrow>
      start_ms (led_blinking_task connected s) = start_ms s + blink_interval_ms s) \<and>
   (list_all steady sts \<longrightarrow>
      start_ms (run cfg sts s) =
        start_ms s + of_nat (toggles (emitted s (run cfg sts s))) * blink_interval_ms s)"
  by (simp add: led_blinking_task_wait led_blinking_task_fire start_ms_run)

theorem blink_gate_and_phase_witness:
  "led_blinking_task True (boot 100) = boot 100 \<and>
   start_ms (led_blinking_task True (boot 600)) = 250 \<and>
   toggles (emitted (boot 600)
     (run example_board [Led_step False, Interrupt 2 2, Led_step True, Led_step True] (boot 600)))
     = 2 \<and>
   start_ms
     (run example_board [Led_step False, Interrupt 2 2, Led_step True, Led_step True] (boot 600))
     = 500"
proof -
  let ?sts = "[Led_step False, Interrupt 2 2, Led_step True, Led_step True]"
  have wait: "board_millis (boot 100) - start_ms (boot 100) < blink_interval_ms (boot 100)"
    by (simp add: board_millis_def boot_def BLINK_NOT_MOUNTED_def)
  have fire: "\<not> board_millis (boot 600) - start_ms (boot 600) < blink_interval_ms (boot 600)"
    by (simp add: board_millis_def boot_def BLINK_NOT_MOUNTED_def)
  have steady: "list_all steady ?sts"
    by simp
  have n: "toggles (emitted (boot 600) (run example_board ?sts (boot 600))) = 2"
    by (simp add: emitted_def toggles_def boot_def led_blinking_task_def isr_def
        board_millis_def board_led_write_def emit_def irq_bit_def example_board_def
        USB_INTERRUPT_def BLINK_NOT_MOUNTED_def Let_def)
  from blink_gate_and_phase [of "boot 100" True ?sts example_board] wait
  have a: "led_blinking_task True (boot 100) = boot 100" by blast
  from blink_gate_and_phase [of "boot 600" True ?sts example_board] fire steady
  have b: "start_ms (led_blinking_task True (boot 600)) = start_ms (boot 600) + blink_interval_ms (boot 600)"
    and c: "start_ms (run example_board ?sts (boot 600)) =
      start_ms (boot 600)
      + of_nat (toggles (emitted (boot 600) (run example_board ?sts (boot 600))))
        * blink_interval_ms (boot 600)"
    by blast+
  from a b c show ?thesis
    unfolding n by (simp add: boot_def BLINK_NOT_MOUNTED_def)
qed

text \<open>
  Claim C10. The greeting counter goes up in a step by exactly the number of greetings
  that step sends, so in any execution from power-on, toggles without a connection
  included, the greetings sent are those for 0, 1, 2, ... in order with none left out
  (the number printed is the index modulo \<open>2 ^ 32\<close>, the counter being a 32-bit value),
  and the counter holds the number of greetings sent.
\<close>

theorem greeting_numbers_consecutive:
  "greetings (trace (run cfg sts (boot t0))) =
     map (\<lambda>k. ''Hello! '' @ fmt_u (k mod 2 ^ 32) @ [CHR 0x0D, CHR 0x0A])
       [0..<length (greetings (trace (run cfg sts (boot t0))))] \<and>
   count (run cfg sts (boot t0)) = of_nat (length (greetings (trace (run cfg sts (boot t0))))) \<and>
   count (exec cfg st s) = count s + of_nat (length (greetings (emitted s (exec cfg st s))))"
proof -
  have "greetings (trace (boot t0)) = map (\<lambda>k. sprintf_hello (of_nat k)) [0..<0]"
    and "count (boot t0) = of_nat 0"
    by (simp_all add: boot_def)
  from greetings_run [OF this] obtain m where
    m: "greetings (trace (run cfg sts (boot t0))) = map (\<lambda>k. sprintf_hello (of_nat k)) [0..<m]"
      "count (run cfg sts (boot t0)) = of_nat m"
    by blast
  then have "length (greetings (trace (run cfg sts (boot t0)))) = m" by simp
  with m show ?thesis
    by (simp add: sprintf_hello_of_nat count_exec)
qed

section \<open>Button watch\<close>

text \<open>
  Claim C4. \<^verbatim>\<open>BUTTON_A_HOLD\<close> is not in the sources; it is taken to be the mask of one
  bit, bit \<open>n\<close> with \<open>n < 32\<close>. Then in every pass through the loop body: a sample
  exactly equal to the hold pattern has 0xac written to the reset control register
  exactly once; a sample that does not match the pattern (the pattern's bit is not
  set in it) has nothing written to that register; and the write happens exactly when
  the bits of the pattern are all set in the sample.
\<close>

theorem button_watch_resets:
  assumes "BUTTON_A_HOLD cfg = push_bit n 1" and "n < 32"
  shows "(button_raw i = BUTTON_A_HOLD cfg \<longrightarrow>
            filter is_reset (emitted s (loop_body cfg i s)) = [Reboot_ctrl_write 0xac]) \<and>
         (button_raw i AND BUTTON_A_HOLD cfg \<noteq> BUTTON_A_HOLD cfg \<longrightarrow>
            filter is_reset (emitted s (loop_body cfg i s)) = []) \<and>
         filter is_reset (emitted s (loop_body cfg i s)) =
           (if button_raw i AND BUTTON_A_HOLD cfg = BUTTON_A_HOLD cfg
            then [Reboot_ctrl_write 0xac] else [])"
proof -
  let ?h = "BUTTON_A_HOLD cfg" and ?b = "button_raw i"
  from assms have nz: "?h \<noteq> 0" by (simp add: single_bit_nonzero)
  have two: "?b AND ?h = 0 \<or> ?b AND ?h = ?h"
    unfolding assms(1) and_single_bit by simp
  have eq: "?b AND ?h = 0 \<longleftrightarrow> ?b AND ?h \<noteq> ?h"
    using nz two by auto
  have all: "filter is_reset (emitted s (loop_body cfg i s)) =
           (if ?b AND ?h = ?h then [Reboot_ctrl_write 0xac] else [])"
    unfolding resets_loop_body using eq by auto
  from all show ?thesis by simp
qed

theorem button_watch_resets_witness:
  "filter is_reset
     (emitted (boot 0)
        (loop_body example_board
           \<lparr>callbacks = [Mount], cdc_available = 0, cdc_rx = [], stack_bytes = (\<lambda>k. 0),
            cdc_connected = False, button_raw = 2\<rparr> (boot 0))) = [Reboot_ctrl_write 0xac] \<and>
   filter is_reset
     (emitted (boot 0)
        (loop_body example_board
           \<lparr>callbacks = [Mount], cdc_available = 0, cdc_rx = [], stack_bytes = (\<lambda>k. 0),
            cdc_connected = False, button_raw = 5\<rparr> (boot 0))) = [] \<and>
   filter is_reset
     (emitted (boot 0)
        (loop_body example_board
           \<lparr>callbacks = [Mount], cdc_available = 0, cdc_rx = [], stack_bytes = (\<lambda>k. 0),
            cdc_connected = False, button_raw = 3\<rparr> (boot 0))) = [Reboot_ctrl_write 0xac]"
proof -
  have h: "BUTTON_A_HOLD example_board = push_bit 1 1" and n: "(1 :: nat) < 32"
    by (simp_all add: example_board_def)
  note th = button_watch_resets [OF h n, of _ "boot 0"]
  from th [of "\<lparr>callbacks = [Mount], cdc_available = 0, cdc_rx = [], stack_bytes = (\<lambda>k. 0),
            cdc_connected = False, button_raw = 2\<rparr>"]
    th [of "\<lparr>callbacks = [Mount], cdc_available = 0, cdc_rx = [], stack_bytes = (\<lambda>k. 0),
            cdc_connected = False, button_raw = 5\<rparr>"]
    th [of "\<lparr>callbacks = [Mount], cdc_available = 0, cdc_rx = [], stack_bytes = (\<lambda>k. 0),
            cdc_connected = False, button_raw = 3\<rparr>"]
  show ?thesis by (simp add: example_board_def)
qed

end
